theory Spec2Isabelle
  imports Main "HOL-Library.Sublist"
begin

chapter \<open>The embedding of \<^verbatim>\<open>wren-ai-service/src/utils.py\<close>\<close>

section \<open>Python values and exceptions\<close>

text \<open>
  The module is a collection of independent helpers. Python exceptions are values of the
  type \<open>error\<close>; a function that may raise returns \<open>error + 'a\<close> with \<open>Inl\<close> the raised
  exception. \<open>Raised\<close> stands for any exception a wrapped callable raises itself.
\<close>

datatype error =
    ValueError string
  | KeyError string
  | TypeError
  | IndexError
  | AttributeError
  | AssertionError
  | Raised string


text \<open>
  The values the helpers handle: \<^verbatim>\<open>None\<close>, integers (\<^verbatim>\<open>bool\<close> is a subclass of
  \<^verbatim>\<open>int\<close>), strings and dictionaries with string keys. A dictionary is a map from
  keys to values, so that two dictionaries are equal when they hold the same items, as
  in Python. An object is seen through its attributes: the map from the names of the
  attributes it has to their values.
\<close>

datatype pyval =
    PNone
  | PInt int
  | PStr string
  | PDict "string \<Rightarrow> pyval option"

type_synonym pydict = "string \<Rightarrow> pyval option"

type_synonym pyobj = "string \<Rightarrow> pyval option"

text \<open>\<^verbatim>\<open>d.get(k)\<close> and \<^verbatim>\<open>d.get(k, default)\<close> on a dictionary.\<close>

definition dict_get :: "pydict \<Rightarrow> string \<Rightarrow> pyval" where
  "dict_get d k = (case d k of None \<Rightarrow> PNone | Some v \<Rightarrow> v)"

definition dict_get_default :: "pydict \<Rightarrow> string \<Rightarrow> pyval \<Rightarrow> pyval" where
  "dict_get_default d k dflt = (case d k of None \<Rightarrow> dflt | Some v \<Rightarrow> v)"

text \<open>
  \<^verbatim>\<open>x.get(k)\<close> on any value: only a dictionary has the method. \<^verbatim>\<open>**x\<close> in a dictionary
  display needs a mapping. \<^verbatim>\<open>d.update(x)\<close> takes a mapping or an iterable of pairs: the
  empty string is an empty iterable, the elements of any other string have length one.
\<close>

fun py_get :: "pyval \<Rightarrow> string \<Rightarrow> error + pyval" where
  "py_get (PDict d) k = Inr (dict_get d k)"
| "py_get _ k = Inl AttributeError"

fun unpack_mapping :: "pyval \<Rightarrow> error + pydict" where
  "unpack_mapping (PDict d) = Inr d"
| "unpack_mapping _ = Inl TypeError"

fun dict_update :: "pydict \<Rightarrow> pyval \<Rightarrow> error + pydict" where
  "dict_update d (PDict other) = Inr (d ++ other)"
| "dict_update d (PStr s) =
     (if s = [] then Inr d
      else Inl (ValueError ''dictionary update sequence element #0 has length 1; 2 is required''))"
| "dict_update d _ = Inl TypeError"

text \<open>Dictionaries are not hashable; the other values are.\<close>

fun hashable :: "pyval \<Rightarrow> bool" where
  "hashable (PDict _) = False"
| "hashable _ = True"

section \<open>The process-wide state and effectful computations\<close>

text \<open>
  What the helpers read and change outside their arguments: the monotonic clock
  (\<^verbatim>\<open>time.perf_counter\<close>, in ticks), the flag \<^verbatim>\<open>settings.enable_timer\<close> of the
  configuration object, the state of the \<^verbatim>\<open>logging\<close> module (its table
  \<^verbatim>\<open>logging._nameToLevel\<close> and its registry of loggers), the calls of \<^verbatim>\<open>logger.info\<close>
  on the module's logger, and the calls of \<^verbatim>\<open>langfuse_context.update_current_trace\<close>.
\<close>

datatype formatter = CustomFormatter

datatype handler = StreamHandler formatter

record logger =
  lg_level :: nat
  lg_handlers :: "handler list"

datatype log_line = Elapsed string int

record trace_update =
  tu_user_id :: pyval
  tu_session_id :: pyval
  tu_release :: pyval
  tu_metadata :: pydict

record world =
  clock :: int
  enable_timer :: bool
  nameToLevel :: "string \<Rightarrow> nat option"
  loggers :: "string \<Rightarrow> logger option"
  log_lines :: "log_line list"
  trace_updates :: "trace_update list"

text \<open>
  A computation takes the state and gives the raised exception or the value, with the
  state it leaves. An exception stops the computation; the effects before it stay.
\<close>

type_synonym 'a comp = "world \<Rightarrow> (error + 'a) \<times> world"

definition returns :: "'a \<Rightarrow> 'a comp" where
  "returns x w = (Inr x, w)"


definition lift :: "error + 'a \<Rightarrow> 'a comp" where
  "lift r w = (r, w)"

definition andthen :: "'a comp \<Rightarrow> ('a \<Rightarrow> 'b comp) \<Rightarrow> 'b comp" where
  "andthen m f w = (case m w of (Inl e, w') \<Rightarrow> (Inl e, w') | (Inr x, w') \<Rightarrow> f x w')"


definition perf_counter :: "int comp" where
  "perf_counter w = (Inr (clock w), w)"

definition get_enable_timer :: "bool comp" where
  "get_enable_timer w = (Inr (enable_timer w), w)"

definition logger_info :: "log_line \<Rightarrow> unit comp" where
  "logger_info l w = (Inr (), w\<lparr>log_lines := log_lines w @ [l]\<rparr>)"

definition update_current_trace :: "trace_update \<Rightarrow> unit comp" where
  "update_current_trace u w = (Inr (), w\<lparr>trace_updates := trace_updates w @ [u]\<rparr>)"

text \<open>
  A callable has its qualified name, is a coroutine function or not
  (\<^verbatim>\<open>asyncio.iscoroutinefunction\<close>), and can be called with positional and keyword
  arguments. Calling a coroutine function gives an awaitable; \<^verbatim>\<open>await\<close> runs it to its
  end (no other coroutine runs in between).
\<close>

datatype 'a awaitable = Coroutine "world \<Rightarrow> (error + 'a) \<times> world"

fun await :: "'a awaitable \<Rightarrow> 'a comp" where
  "await (Coroutine c) = c"

record ('a, 'k, 'r) callable =
  qualname :: string
  iscoroutinefunction :: bool
  call :: "'a list \<Rightarrow> (string \<Rightarrow> 'k option) \<Rightarrow> 'r comp"

section \<open>The logger factory\<close>



definition default_nameToLevel :: "string \<Rightarrow> nat option" where
  "default_nameToLevel =
     map_of [(''CRITICAL'', 50), (''FATAL'', 50), (''ERROR'', 40), (''WARN'', 30),
             (''WARNING'', 30), (''INFO'', 20), (''DEBUG'', 10), (''NOTSET'', 0)]"

definition initial_world :: world where
  "initial_world =
     \<lparr>clock = 0, enable_timer = False, nameToLevel = default_nameToLevel,
      loggers = [''root'' \<mapsto> \<lparr>lg_level = 30, lg_handlers = []\<rparr>],
      log_lines = [], trace_updates = []\<rparr>"







section \<open>The timing decorators\<close>

text \<open>
  \<open>timer func\<close> and \<open>async_timer func\<close> are the wrappers the decorators return; the
  asynchronous one is given by what awaiting its call does. The flag is read at each
  call. The assertion of \<open>process\<close> is checked (the interpreter does not run with
  \<^verbatim>\<open>-O\<close>).
\<close>

definition timer :: "('a, 'k, 'r) callable \<Rightarrow> 'a list \<Rightarrow> (string \<Rightarrow> 'k option) \<Rightarrow> 'r comp" where
  "timer func args kwargs =
     andthen get_enable_timer (\<lambda>enabled.
       if enabled then
         andthen perf_counter (\<lambda>startTime.
         andthen (call func args kwargs) (\<lambda>result.
         andthen perf_counter (\<lambda>endTime.
         let elapsed_time = endTime - startTime in
         andthen (logger_info (Elapsed (qualname func) elapsed_time)) (\<lambda>_.
         returns result))))
       else call func args kwargs)"



section \<open>The tracing-metadata decorator\<close>

text \<open>
  \<open>extract_metadata\<close> (the inner function \<^verbatim>\<open>extract\<close>) reads the request at index 1 of the positional arguments and copies each
  of the four attributes the request has. \<open>trace_metadata func\<close> is the wrapper, given by
  what awaiting its call does.
\<close>

definition copy_attr :: "pyobj \<Rightarrow> string \<Rightarrow> pydict \<Rightarrow> pydict" where
  "copy_attr request name metadata =
     (case request name of None \<Rightarrow> metadata | Some v \<Rightarrow> metadata(name \<mapsto> v))"

definition extract_metadata :: "pyobj list \<Rightarrow> error + pydict" where
  "extract_metadata args =
     (if length args < 2 then Inl IndexError
      else
        let request = args ! 1;
            metadata = Map.empty;
            metadata = copy_attr request ''project_id'' metadata;
            metadata = copy_attr request ''thread_id'' metadata;
            metadata = copy_attr request ''mdl_hash'' metadata;
            metadata = copy_attr request ''user_id'' metadata
        in Inr metadata)"

text \<open>
  The two blocks of the wrapper that prepare the merge: \<open>result_addition\<close> fills
  \<^verbatim>\<open>addition\<close> from the result when it is a dictionary, \<open>kwargs_service_metadata\<close>
  reads the keyword argument \<^verbatim>\<open>service_metadata\<close> with its default.
\<close>

definition result_addition :: "pyval \<Rightarrow> error + pydict" where
  "result_addition results =
     (let addition = Map.empty in
      case results of
        PDict r \<Rightarrow> dict_update addition (dict_get_default r ''metadata'' (PDict Map.empty))
      | _ \<Rightarrow> Inr addition)"

definition kwargs_service_metadata :: "pydict \<Rightarrow> pyval" where
  "kwargs_service_metadata kwargs =
     dict_get_default kwargs ''service_metadata''
       (PDict [''pipes_metadata'' \<mapsto> PDict Map.empty, ''service_version'' \<mapsto> PStr []])"

definition trace_metadata ::
  "(pyobj, pyval, pyval awaitable) callable \<Rightarrow> pyobj list \<Rightarrow> pydict \<Rightarrow> pyval comp" where
  "trace_metadata func args kwargs =
     andthen (andthen (call func args kwargs) await) (\<lambda>results.
     andthen (lift (result_addition results)) (\<lambda>addition.
     andthen (lift (extract_metadata args)) (\<lambda>metadata.
     let service_metadata = kwargs_service_metadata kwargs in
     andthen (lift (py_get service_metadata ''pipes_metadata'')) (\<lambda>pipes.
     andthen (lift (unpack_mapping pipes)) (\<lambda>pipes_metadata.
     let langfuse_metadata =
           (pipes_metadata ++ addition)
             (''mdl_hash'' \<mapsto> dict_get metadata ''mdl_hash'',
              ''project_id'' \<mapsto> dict_get metadata ''project_id'') in
     andthen (lift (py_get service_metadata ''service_version'')) (\<lambda>release.
     andthen (update_current_trace
                \<lparr>tu_user_id = dict_get metadata ''user_id'',
                 tu_session_id = dict_get metadata ''thread_id'',
                 tu_release = release,
                 tu_metadata = langfuse_metadata\<rparr>) (\<lambda>_.
     returns results)))))))"

section \<open>The dedup helper\<close>

text \<open>
  The loop of \<open>remove_sql_summary_duplicates\<close> with its two accumulators. Reading a
  missing key raises \<^verbatim>\<open>KeyError\<close>; the membership test hashes the pair, which raises
  \<^verbatim>\<open>TypeError\<close> when one of the two values is not hashable.
\<close>

fun dedup_loop ::
  "pydict list \<Rightarrow> (pyval \<times> pyval) set \<Rightarrow> pydict list \<Rightarrow> error + pydict list" where
  "dedup_loop [] seen unique_dicts = Inr unique_dicts"
| "dedup_loop (d # dicts) seen unique_dicts =
     (case d ''sql'' of
        None \<Rightarrow> Inl (KeyError ''sql'')
      | Some sql \<Rightarrow>
          (case d ''summary'' of
             None \<Rightarrow> Inl (KeyError ''summary'')
           | Some summary \<Rightarrow>
               if \<not> (hashable sql \<and> hashable summary) then Inl TypeError
               else if (sql, summary) \<notin> seen
                 then dedup_loop dicts (insert (sql, summary) seen) (unique_dicts @ [d])
                 else dedup_loop dicts seen unique_dicts))"

definition remove_sql_summary_duplicates :: "pydict list \<Rightarrow> error + pydict list" where
  "remove_sql_summary_duplicates dicts = dedup_loop dicts {} []"

section \<open>Trailing slashes\<close>

text \<open>
  \<^verbatim>\<open>str.endswith(suffix)\<close> and \<^verbatim>\<open>str.rstrip(chars)\<close>: the latter removes from the right
  end every character that occurs in \<open>chars\<close>, until one does not. The slash is
  an ASCII character, so reading a string as its list of bytes changes nothing.
\<close>

definition endswith :: "string \<Rightarrow> string \<Rightarrow> bool" where
  "endswith s suf = suffix suf s"

definition rstrip :: "string \<Rightarrow> string \<Rightarrow> string" where
  "rstrip s chars = rev (dropWhile (\<lambda>c. c \<in> set chars) (rev s))"

definition remove_trailing_slash :: "string \<Rightarrow> string" where
  "remove_trailing_slash endpoint =
     (if endswith endpoint ''/'' then rstrip endpoint ''/'' else endpoint)"

section \<open>Notions of the specification of the dedup helper\<close>

text \<open>
  The pair a record is compared by, and a record that has both fields with hashable
  values (strings are). \<open>first_occurrences\<close> follows the specification's words: the
  records, in their order, whose pair does not occur among the records before them.
  \<open>fields_hashable\<close> asks hashable values of the fields a record has.
  \<open>row\<close> builds the record \<^verbatim>\<open>{"sql": a, "summary": b}\<close>.
\<close>

definition key_of :: "pydict \<Rightarrow> pyval option \<times> pyval option" where
  "key_of d = (d ''sql'', d ''summary'')"

definition well_keyed :: "pydict \<Rightarrow> bool" where
  "well_keyed d =
     (case d ''sql'' of None \<Rightarrow> False
      | Some s \<Rightarrow> (case d ''summary'' of None \<Rightarrow> False | Some m \<Rightarrow> hashable s \<and> hashable m))"

definition first_occurrences :: "pydict list \<Rightarrow> pydict list" where
  "first_occurrences ds =
     map (\<lambda>i. ds ! i)
       (filter (\<lambda>i. key_of (ds ! i) \<notin> key_of ` set (take i ds)) [0..<length ds])"

definition fields_hashable :: "pydict \<Rightarrow> bool" where
  "fields_hashable d =
     ((case d ''sql'' of None \<Rightarrow> True | Some v \<Rightarrow> hashable v)
      \<and> (case d ''summary'' of None \<Rightarrow> True | Some v \<Rightarrow> hashable v))"

definition row :: "string \<Rightarrow> string \<Rightarrow> pydict" where
  "row sql summary = [''sql'' \<mapsto> PStr sql, ''summary'' \<mapsto> PStr summary]"

text \<open>
  The loop as a function of the pairs seen so far, used to reason on \<open>dedup_loop\<close>.
\<close>

fun firsts :: "(pyval option \<times> pyval option) set \<Rightarrow> pydict list \<Rightarrow> pydict list" where
  "firsts seen [] = []"
| "firsts seen (d # ds) =
     (if key_of d \<in> seen then firsts seen ds else d # firsts (insert (key_of d) seen) ds)"

definition some_pair :: "pyval \<times> pyval \<Rightarrow> pyval option \<times> pyval option" where
  "some_pair p = (Some (fst p), Some (snd p))"

section \<open>Sample callables\<close>




section \<open>Notions of the specification of the tracing-metadata decorator\<close>

text \<open>
  The names of the four identifying attributes. \<open>pipes_metadata_of\<close>,
  \<open>result_metadata_of\<close> and \<open>release_of\<close> follow the specification's words: the
  \<^verbatim>\<open>pipes_metadata\<close> mapping of the keyword argument \<^verbatim>\<open>service_metadata\<close> (empty when the
  argument is absent), the \<^verbatim>\<open>metadata\<close> sub-mapping of a result that is a mapping, and the
  service version. \<open>wf_service_metadata\<close> and \<open>wf_result\<close> say that these parts have
  the shape the wrapper expects: the keyword argument is absent or a mapping with a
  mapping under \<^verbatim>\<open>pipes_metadata\<close>, and the \<^verbatim>\<open>metadata\<close> item of a mapping result is absent
  or a mapping. \<open>pushed\<close> is the update the specification describes for a request.
\<close>

definition identifying_attributes :: "string set" where
  "identifying_attributes = {''project_id'', ''thread_id'', ''mdl_hash'', ''user_id''}"

definition pipes_metadata_of :: "pydict \<Rightarrow> pydict" where
  "pipes_metadata_of kwargs =
     (case kwargs ''service_metadata'' of
        Some (PDict sm) \<Rightarrow> (case sm ''pipes_metadata'' of Some (PDict p) \<Rightarrow> p | _ \<Rightarrow> Map.empty)
      | _ \<Rightarrow> Map.empty)"

definition release_of :: "pydict \<Rightarrow> pyval" where
  "release_of kwargs =
     (case kwargs ''service_metadata'' of
        Some (PDict sm) \<Rightarrow> dict_get sm ''service_version''
      | _ \<Rightarrow> PStr [])"

definition result_metadata_of :: "pyval \<Rightarrow> pydict" where
  "result_metadata_of results =
     (case results of
        PDict r \<Rightarrow> (case r ''metadata'' of Some (PDict m) \<Rightarrow> m | _ \<Rightarrow> Map.empty)
      | _ \<Rightarrow> Map.empty)"

definition wf_service_metadata :: "pydict \<Rightarrow> bool" where
  "wf_service_metadata kwargs =
     (case kwargs ''service_metadata'' of
        None \<Rightarrow> True
      | Some (PDict sm) \<Rightarrow> (case sm ''pipes_metadata'' of Some (PDict p) \<Rightarrow> True | _ \<Rightarrow> False)
      | Some _ \<Rightarrow> False)"

definition wf_result :: "pyval \<Rightarrow> bool" where
  "wf_result results =
     (case results of
        PDict r \<Rightarrow> (case r ''metadata'' of None \<Rightarrow> True | Some (PDict m) \<Rightarrow> True | Some _ \<Rightarrow> False)
      | _ \<Rightarrow> True)"

definition pushed :: "pyobj \<Rightarrow> pydict \<Rightarrow> pyval \<Rightarrow> trace_update" where
  "pushed request kwargs results =
     \<lparr>tu_user_id = dict_get request ''user_id'',
      tu_session_id = dict_get request ''thread_id'',
      tu_release = release_of kwargs,
      tu_metadata = pipes_metadata_of kwargs ++ result_metadata_of results
         ++ [''mdl_hash'' \<mapsto> dict_get request ''mdl_hash'',
             ''project_id'' \<mapsto> dict_get request ''project_id'']\<rparr>"

text \<open>
  A request that exposes a project and a user identifier, a result with a \<^verbatim>\<open>metadata\<close>
  sub-mapping, keyword arguments with \<^verbatim>\<open>service_metadata\<close>, and a coroutine function
  that returns the result.
\<close>

definition sample_request :: pyobj where
  "sample_request = [''project_id'' \<mapsto> PStr ''p1'', ''user_id'' \<mapsto> PStr ''u1'']"

definition sample_result :: pyval where
  "sample_result = PDict [''metadata'' \<mapsto> PDict [''k'' \<mapsto> PStr ''v'', ''mdl_hash'' \<mapsto> PStr ''h1'']]"

definition sample_kwargs :: pydict where
  "sample_kwargs =
     [''service_metadata'' \<mapsto>
        PDict [''pipes_metadata'' \<mapsto>
                 PDict [''k'' \<mapsto> PStr ''pipe'', ''p'' \<mapsto> PStr ''q'', ''mdl_hash'' \<mapsto> PStr ''h0''],
               ''service_version'' \<mapsto> PStr ''0.1'']]"

definition sample_ask :: "(pyobj, pyval, pyval awaitable) callable" where
  "sample_ask =
     \<lparr>qualname = ''AskService.ask'', iscoroutinefunction = True,
      call = (\<lambda>args kwargs. returns (Coroutine (returns sample_result)))\<rparr>"

chapter \<open>Properties\<close>

section \<open>Trailing slashes are all removed\<close>

lemma endswith_slash_iff: "endswith s ''/'' \<longleftrightarrow> s \<noteq> [] \<and> last s = CHR ''/''"
proof (cases s rule: rev_cases)
  case Nil
  then show ?thesis by (simp add: endswith_def)
next
  case (snoc ys y)
  then show ?thesis by (auto simp: endswith_def)
qed

lemma rstrip_slash_decompose:
  "\<exists>n. s = rstrip s ''/'' @ replicate n CHR ''/''"
proof (induction s rule: rev_induct)
  case Nil
  show ?case by (simp add: rstrip_def)
next
  case (snoc x xs)
  show ?case
  proof (cases "x = CHR ''/''")
    case True
    define r where "r = rstrip xs ''/''"
    from snoc obtain n where n: "xs = r @ replicate n CHR ''/''"
      unfolding r_def by blast
    have "rstrip (xs @ [x]) ''/'' = r"
      using True by (simp add: rstrip_def r_def)
    moreover have "xs @ [x] = r @ replicate (Suc n) CHR ''/''"
      by (simp add: n True replicate_append_same)
    ultimately show ?thesis by metis
  next
    case False
    then have "rstrip (xs @ [x]) ''/'' = xs @ [x]" by (simp add: rstrip_def)
    then have "xs @ [x] = rstrip (xs @ [x]) ''/'' @ replicate 0 CHR ''/''" by simp
    then show ?thesis by blast
  qed
qed

lemma rstrip_slash_last:
  "rstrip s ''/'' \<noteq> [] \<Longrightarrow> last (rstrip s ''/'') \<noteq> CHR ''/''"
proof -
  assume ne: "rstrip s ''/'' \<noteq> []"
  let ?d = "dropWhile (\<lambda>c. c \<in> set ''/'') (rev s)"
  from ne have d: "?d \<noteq> []" by (simp add: rstrip_def)
  then have "\<not> (hd ?d \<in> set ''/'')" by (rule hd_dropWhile)
  moreover have "last (rev ?d) = hd ?d" using d by (simp add: last_rev)
  ultimately show ?thesis by (simp add: rstrip_def)
qed

lemma rstrip_slash_unchanged:
  "s = [] \<or> last s \<noteq> CHR ''/'' \<Longrightarrow> rstrip s ''/'' = s"
  by (cases s rule: rev_cases) (auto simp: rstrip_def)

lemma remove_trailing_slash_decompose:
  "\<exists>n. s = remove_trailing_slash s @ replicate n CHR ''/''"
proof (cases "endswith s ''/''")
  case True
  then show ?thesis using rstrip_slash_decompose [of s] by (simp add: remove_trailing_slash_def)
next
  case False
  then have "s = remove_trailing_slash s @ replicate 0 CHR ''/''"
    by (simp add: remove_trailing_slash_def)
  then show ?thesis by blast
qed

lemma remove_trailing_slash_no_slash:
  "\<not> endswith (remove_trailing_slash s) ''/''"
proof (cases "endswith s ''/''")
  case True
  then show ?thesis
    using rstrip_slash_last [of s]
    by (auto simp: remove_trailing_slash_def endswith_slash_iff)
next
  case False
  then show ?thesis by (simp add: remove_trailing_slash_def)
qed

text \<open>
  C10. For every string \<open>s\<close>, \<open>remove_trailing_slash s\<close> is \<open>s\<close> without its whole run of
  trailing slashes: \<open>s\<close> is the result followed by some number of slashes, and the result
  does not end with a slash (so more than one slash is removed when there are several).
  The operation is idempotent, and a string that does not end with a slash is returned
  unchanged.
\<close>

theorem remove_trailing_slash_spec:
  "(\<exists>n. s = remove_trailing_slash s @ replicate n CHR ''/'')
   \<and> (remove_trailing_slash s \<noteq> [] \<longrightarrow> last (remove_trailing_slash s) \<noteq> CHR ''/'')
   \<and> remove_trailing_slash (remove_trailing_slash s) = remove_trailing_slash s
   \<and> (\<not> endswith s ''/'' \<longrightarrow> remove_trailing_slash s = s)"
proof -
  have a: "\<exists>n. s = remove_trailing_slash s @ replicate n CHR ''/''"
    by (rule remove_trailing_slash_decompose)
  have b: "\<not> endswith (remove_trailing_slash s) ''/''"
    by (rule remove_trailing_slash_no_slash)
  have c: "remove_trailing_slash (remove_trailing_slash s) = remove_trailing_slash s"
    using b by (simp add: remove_trailing_slash_def)
  have d: "\<not> endswith s ''/'' \<longrightarrow> remove_trailing_slash s = s"
    by (simp add: remove_trailing_slash_def)
  from b have b': "remove_trailing_slash s \<noteq> [] \<longrightarrow> last (remove_trailing_slash s) \<noteq> CHR ''/''"
    unfolding endswith_slash_iff by blast
  from a b' c d show ?thesis by blast
qed

theorem remove_trailing_slash_spec_witness:
  "remove_trailing_slash ''http://h:8080/api///'' = ''http://h:8080/api''
   \<and> ''http://h:8080/api///'' = remove_trailing_slash ''http://h:8080/api///'' @ replicate 3 CHR ''/''
   \<and> last (remove_trailing_slash ''http://h:8080/api///'') \<noteq> CHR ''/''
   \<and> remove_trailing_slash (remove_trailing_slash ''http://h:8080/api///'')
       = remove_trailing_slash ''http://h:8080/api///''
   \<and> \<not> endswith ''http://h'' ''/'' \<and> remove_trailing_slash ''http://h'' = ''http://h''"
proof -
  have v: "remove_trailing_slash ''http://h:8080/api///'' = ''http://h:8080/api''"
    by (simp add: remove_trailing_slash_def endswith_slash_iff rstrip_def)
  have n: "\<not> endswith ''http://h'' ''/''"
    by (simp add: endswith_slash_iff)
  show ?thesis
    using remove_trailing_slash_spec [of "''http://h:8080/api///''"]
      remove_trailing_slash_spec [of "''http://h''"] v n
    by (simp add: numeral_3_eq_3)
qed

section \<open>The dedup helper keeps first occurrences\<close>

lemma some_pair_mem: "(Some a, Some b) \<in> some_pair ` S \<longleftrightarrow> (a, b) \<in> S"
  by (force simp: some_pair_def image_iff)

lemma dedup_loop_firsts:
  "\<forall>d\<in>set ds. well_keyed d \<Longrightarrow>
   dedup_loop ds seen acc = Inr (acc @ firsts (some_pair ` seen) ds)"
proof (induction ds arbitrary: seen acc)
  case Nil
  show ?case by simp
next
  case (Cons d ds)
  from Cons.prems obtain s m where sm: "d ''sql'' = Some s" "d ''summary'' = Some m"
    "hashable s" "hashable m"
    by (auto simp: well_keyed_def split: option.splits)
  from Cons.prems have rest: "\<forall>d\<in>set ds. well_keyed d" by simp
  have k: "key_of d = some_pair (s, m)" by (simp add: key_of_def sm some_pair_def)
  have mem: "key_of d \<in> some_pair ` seen \<longleftrightarrow> (s, m) \<in> seen"
    by (simp add: key_of_def sm some_pair_mem)
  show ?case
  proof (cases "(s, m) \<in> seen")
    case True
    then show ?thesis using Cons.IH [OF rest, of seen acc] sm mem by simp
  next
    case False
    then show ?thesis
      using Cons.IH [OF rest, of "insert (s, m) seen" "acc @ [d]"] sm mem k by simp
  qed
qed

lemma filter_upt_Suc:
  "filter P [0..<Suc n] = (if P 0 then [0] else []) @ map Suc (filter (\<lambda>i. P (Suc i)) [0..<n])"
proof -
  have "[0..<Suc n] = 0 # map Suc [0..<n]"
    by (simp add: upt_conv_Cons map_Suc_upt del: upt_Suc)
  then show ?thesis by (simp add: filter_map comp_def del: upt_Suc)
qed

lemma firsts_index:
  "firsts seen ds =
     map (\<lambda>i. ds ! i)
       (filter (\<lambda>i. key_of (ds ! i) \<notin> seen \<and> (\<forall>j<i. key_of (ds ! j) \<noteq> key_of (ds ! i)))
          [0..<length ds])"
proof (induction ds arbitrary: seen)
  case Nil
  show ?case by simp
next
  case (Cons d ds)
  let ?P = "\<lambda>S xs i. key_of (xs ! i) \<notin> S \<and> (\<forall>j<i. key_of (xs ! j) \<noteq> key_of (xs ! i))"
  have step: "map (\<lambda>i. (d # ds) ! i) (filter (?P seen (d # ds)) [0..<length (d # ds)])
      = (if key_of d \<notin> seen then [d] else [])
        @ map (\<lambda>i. ds ! i) (filter (\<lambda>i. ?P seen (d # ds) (Suc i)) [0..<length ds])"
  proof -
    define Q where "Q = ?P seen (d # ds)"
    have q0: "Q 0 \<longleftrightarrow> key_of d \<notin> seen" by (simp add: Q_def)
    have "filter Q [0..<length (d # ds)]
        = (if Q 0 then [0] else []) @ map Suc (filter (\<lambda>i. Q (Suc i)) [0..<length ds])"
      using filter_upt_Suc [of Q "length ds"] by simp
    then have "map (\<lambda>i. (d # ds) ! i) (filter Q [0..<length (d # ds)])
        = (if Q 0 then [d] else []) @ map (\<lambda>i. ds ! i) (filter (\<lambda>i. Q (Suc i)) [0..<length ds])"
      by (simp add: comp_def)
    then show ?thesis unfolding q0 unfolding Q_def .
  qed
  have suc: "?P seen (d # ds) (Suc i) \<longleftrightarrow>
      key_of (ds ! i) \<notin> seen \<and> key_of d \<noteq> key_of (ds ! i) \<and> (\<forall>j<i. key_of (ds ! j) \<noteq> key_of (ds ! i))"
    for i
    by (simp add: All_less_Suc2)
  show ?case
  proof (cases "key_of d \<in> seen")
    case True
    have "?P seen (d # ds) (Suc i) \<longleftrightarrow> ?P seen ds i" for i
      unfolding suc using True by auto
    then show ?thesis
      unfolding step using True Cons.IH [of seen] by simp
  next
    case False
    have "?P seen (d # ds) (Suc i) \<longleftrightarrow> ?P (insert (key_of d) seen) ds i" for i
      unfolding suc by auto
    then show ?thesis
      unfolding step using False Cons.IH [of "insert (key_of d) seen"] by simp
  qed
qed

lemma firsts_subset: "set (firsts seen ds) \<subseteq> set ds"
  by (induction ds arbitrary: seen) auto

lemma firsts_keys: "key_of ` set (firsts seen ds) = key_of ` set ds - seen"
  by (induction ds arbitrary: seen) auto

lemma firsts_distinct: "distinct (map key_of (firsts seen ds))"
proof (induction ds arbitrary: seen)
  case Nil
  show ?case by simp
next
  case (Cons d ds)
  show ?case using Cons.IH firsts_keys [of "insert (key_of d) seen" ds] by auto
qed

lemma firsts_fixed:
  "distinct (map key_of xs) \<Longrightarrow> key_of ` set xs \<inter> seen = {} \<Longrightarrow> firsts seen xs = xs"
proof (induction xs arbitrary: seen)
  case Nil
  show ?case by simp
next
  case (Cons x xs)
  from Cons.prems have "key_of x \<notin> seen" by auto
  moreover have "firsts (insert (key_of x) seen) xs = xs"
    using Cons.prems by (intro Cons.IH) auto
  ultimately show ?case by simp
qed

lemma firsts_idem: "firsts seen (firsts seen ds) = firsts seen ds"
  by (rule firsts_fixed) (auto simp: firsts_distinct firsts_keys)

lemma no_earlier_iff:
  assumes "i \<le> length xs"
  shows "(\<forall>j<i. f (xs ! j) \<noteq> y) \<longleftrightarrow> y \<notin> f ` set (take i xs)"
proof -
  have "set (take i xs) = (\<lambda>j. xs ! j) ` {0..<i}"
    using assms nth_image [of i xs] by simp
  then show ?thesis by auto
qed

lemma dedup_first_occurrences:
  assumes "\<forall>d\<in>set dicts. well_keyed d"
  shows "remove_sql_summary_duplicates dicts = Inr (first_occurrences dicts)"
proof -
  have "remove_sql_summary_duplicates dicts = Inr (firsts {} dicts)"
    using dedup_loop_firsts [OF assms, of "{}" "[]"]
    by (simp add: remove_sql_summary_duplicates_def)
  also have "firsts {} dicts = first_occurrences dicts"
  proof -
    have "(\<forall>j<i. key_of (dicts ! j) \<noteq> key_of (dicts ! i))
        \<longleftrightarrow> key_of (dicts ! i) \<notin> key_of ` set (take i dicts)"
      if "i < length dicts" for i
      using that by (simp add: no_earlier_iff)
    then have "filter (\<lambda>i. key_of (dicts ! i) \<notin> {} \<and> (\<forall>j<i. key_of (dicts ! j) \<noteq> key_of (dicts ! i)))
          [0..<length dicts]
        = filter (\<lambda>i. key_of (dicts ! i) \<notin> key_of ` set (take i dicts)) [0..<length dicts]"
      by (intro filter_cong) auto
    then show ?thesis
      unfolding firsts_index first_occurrences_def by simp
  qed
  finally show ?thesis .
qed

lemma well_keyed_row: "well_keyed (row a b)"
  by (simp add: well_keyed_def row_def)

lemma key_of_row: "key_of (row a b) = (Some (PStr a), Some (PStr b))"
  by (simp add: key_of_def row_def)

text \<open>
  C4. For every sequence of records that each contain the fields \<^verbatim>\<open>sql\<close> and
  \<^verbatim>\<open>summary\<close> (with hashable values, as the strings of the specification are), the
  helper returns the records whose \<^verbatim>\<open>(sql, summary)\<close> pair does not occur earlier in the
  sequence, in their original order: the first record of each distinct pair. On the
  example of three records with two exact duplicates it returns the two distinct records
  in order.
\<close>

theorem remove_sql_summary_duplicates_keeps_first:
  "((\<forall>d\<in>set dicts. well_keyed d) \<longrightarrow>
      remove_sql_summary_duplicates dicts = Inr (first_occurrences dicts))
   \<and> remove_sql_summary_duplicates [row ''A'' ''x'', row ''A'' ''x'', row ''B'' ''x'']
       = Inr [row ''A'' ''x'', row ''B'' ''x'']"
proof -
  let ?l = "[row ''A'' ''x'', row ''A'' ''x'', row ''B'' ''x'']"
  have "\<forall>d\<in>set ?l. well_keyed d" by (simp add: well_keyed_row)
  then have "remove_sql_summary_duplicates ?l = Inr (first_occurrences ?l)"
    by (rule dedup_first_occurrences)
  moreover have "first_occurrences ?l = [row ''A'' ''x'', row ''B'' ''x'']"
    by (simp add: first_occurrences_def key_of_row)
  ultimately show ?thesis using dedup_first_occurrences by simp
qed

theorem remove_sql_summary_duplicates_keeps_first_witness:
  "well_keyed ((row ''A'' ''x'')(''id'' \<mapsto> PInt 1))
   \<and> well_keyed ((row ''B'' ''x'')(''id'' \<mapsto> PInt 2))
   \<and> well_keyed ((row ''A'' ''x'')(''id'' \<mapsto> PInt 3))
   \<and> remove_sql_summary_duplicates
        [(row ''A'' ''x'')(''id'' \<mapsto> PInt 1), (row ''B'' ''x'')(''id'' \<mapsto> PInt 2),
         (row ''A'' ''x'')(''id'' \<mapsto> PInt 3)]
       = Inr [(row ''A'' ''x'')(''id'' \<mapsto> PInt 1), (row ''B'' ''x'')(''id'' \<mapsto> PInt 2)]"
proof -
  let ?l = "[(row ''A'' ''x'')(''id'' \<mapsto> PInt 1), (row ''B'' ''x'')(''id'' \<mapsto> PInt 2),
             (row ''A'' ''x'')(''id'' \<mapsto> PInt 3)]"
  have wk: "well_keyed ((row a b)(''id'' \<mapsto> v))" for a b v
    by (simp add: well_keyed_def row_def)
  have k: "key_of ((row a b)(''id'' \<mapsto> v)) = (Some (PStr a), Some (PStr b))" for a b v
    by (simp add: key_of_def row_def)
  have "first_occurrences ?l = [(row ''A'' ''x'')(''id'' \<mapsto> PInt 1), (row ''B'' ''x'')(''id'' \<mapsto> PInt 2)]"
    by (simp add: first_occurrences_def k)
  then show ?thesis
    using remove_sql_summary_duplicates_keeps_first [of ?l] wk by simp
qed

text \<open>
  C7. The helper is idempotent: on every sequence of records that contain the two fields
  (with hashable values) it returns a sequence on which it returns the same sequence
  again.
\<close>

theorem remove_sql_summary_duplicates_idempotent:
  assumes "\<forall>d\<in>set dicts. well_keyed d"
  shows "\<exists>out. remove_sql_summary_duplicates dicts = Inr out
           \<and> remove_sql_summary_duplicates out = Inr out"
proof -
  let ?out = "firsts {} dicts"
  have one: "remove_sql_summary_duplicates dicts = Inr ?out"
    using dedup_loop_firsts [OF assms, of "{}" "[]"]
    by (simp add: remove_sql_summary_duplicates_def)
  have "\<forall>d\<in>set ?out. well_keyed d"
    using assms firsts_subset [of "{}" dicts] by blast
  then have "remove_sql_summary_duplicates ?out = Inr (firsts {} ?out)"
    using dedup_loop_firsts [of ?out "{}" "[]"]
    by (simp add: remove_sql_summary_duplicates_def)
  then have two: "remove_sql_summary_duplicates ?out = Inr ?out"
    by (simp add: firsts_idem)
  from one two show ?thesis by blast
qed

theorem remove_sql_summary_duplicates_idempotent_witness:
  "well_keyed (row ''A'' ''x'') \<and> well_keyed (row ''B'' ''y'')
   \<and> remove_sql_summary_duplicates [row ''A'' ''x'', row ''B'' ''y'', row ''A'' ''x'']
       = Inr [row ''A'' ''x'', row ''B'' ''y'']
   \<and> remove_sql_summary_duplicates [row ''A'' ''x'', row ''B'' ''y'']
       = Inr [row ''A'' ''x'', row ''B'' ''y'']"
proof -
  let ?l = "[row ''A'' ''x'', row ''B'' ''y'', row ''A'' ''x'']"
  have v: "remove_sql_summary_duplicates ?l = Inr [row ''A'' ''x'', row ''B'' ''y'']"
    by (simp add: remove_sql_summary_duplicates_def row_def)
  have "\<forall>d\<in>set ?l. well_keyed d" by (simp add: well_keyed_row)
  from remove_sql_summary_duplicates_idempotent [OF this] v
  show ?thesis by (simp add: well_keyed_row)
qed

lemma dedup_loop_missing_field:
  assumes "\<forall>d\<in>set ds. fields_hashable d"
    and "\<exists>d\<in>set ds. d ''sql'' = None \<or> d ''summary'' = None"
  shows "dedup_loop ds seen acc = Inl (KeyError ''sql'')
         \<or> dedup_loop ds seen acc = Inl (KeyError ''summary'')"
  using assms
proof (induction ds arbitrary: seen acc)
  case Nil
  then show ?case by simp
next
  case (Cons d ds)
  show ?case
  proof (cases "d ''sql'' = None \<or> d ''summary'' = None")
    case True
    then show ?thesis by (auto split: option.splits)
  next
    case False
    then obtain s m where sm: "d ''sql'' = Some s" "d ''summary'' = Some m" by auto
    from Cons.prems(1) sm have h: "hashable s" "hashable m"
      by (simp_all add: fields_hashable_def)
    from Cons.prems False have rest: "\<forall>d\<in>set ds. fields_hashable d"
      "\<exists>d\<in>set ds. d ''sql'' = None \<or> d ''summary'' = None" by auto
    show ?thesis
      using Cons.IH [OF rest, of "insert (s, m) seen" "acc @ [d]"] Cons.IH [OF rest, of seen acc]
        sm h by simp
  qed
qed

text \<open>
  C8. When some record of the input lacks the field \<^verbatim>\<open>sql\<close> or the field
  \<^verbatim>\<open>summary\<close> (the values of the fields that are there being hashable), the helper
  raises \<^verbatim>\<open>KeyError\<close> for one of the two names and returns no result: nothing is
  validated or recovered.
\<close>

theorem remove_sql_summary_duplicates_missing_field:
  assumes "\<exists>d\<in>set dicts. d ''sql'' = None \<or> d ''summary'' = None"
    and "\<forall>d\<in>set dicts. fields_hashable d"
  shows "remove_sql_summary_duplicates dicts = Inl (KeyError ''sql'')
         \<or> remove_sql_summary_duplicates dicts = Inl (KeyError ''summary'')"
  unfolding remove_sql_summary_duplicates_def
  using assms by (intro dedup_loop_missing_field) auto

theorem remove_sql_summary_duplicates_missing_field_witness:
  "[''sql'' \<mapsto> PStr ''B''] ''summary'' = None
   \<and> fields_hashable (row ''A'' ''x'') \<and> fields_hashable [''sql'' \<mapsto> PStr ''B'']
   \<and> remove_sql_summary_duplicates [row ''A'' ''x'', [''sql'' \<mapsto> PStr ''B''], row ''A'' ''x'']
       = Inl (KeyError ''summary'')"
proof -
  let ?l = "[row ''A'' ''x'', [''sql'' \<mapsto> PStr ''B''], row ''A'' ''x'']"
  have a: "\<exists>d\<in>set ?l. d ''sql'' = None \<or> d ''summary'' = None" by simp
  have b: "\<forall>d\<in>set ?l. fields_hashable d" by (simp add: fields_hashable_def row_def)
  have c: "remove_sql_summary_duplicates ?l \<noteq> Inl (KeyError ''sql'')"
    by (simp add: remove_sql_summary_duplicates_def row_def)
  from remove_sql_summary_duplicates_missing_field [OF a b] c
  show ?thesis by (simp add: fields_hashable_def row_def)
qed

section \<open>The timing decorators pass the result through\<close>

lemma andthen_returns [simp]: "andthen (returns x) f = f x"
  by (simp add: andthen_def returns_def fun_eq_iff)

lemma timer_enabled:
  "enable_timer w \<Longrightarrow> call func args kwargs w = (Inr r, w1) \<Longrightarrow>
   timer func args kwargs w
     = (Inr r, w1\<lparr>log_lines := log_lines w1 @ [Elapsed (qualname func) (clock w1 - clock w)]\<rparr>)"
  by (simp add: timer_def andthen_def get_enable_timer_def perf_counter_def logger_info_def
      returns_def)










section \<open>The logger factory accepts the names of the table\<close>








section \<open>The tracing-metadata decorator reads the request at index 1 and merges\<close>

lemma extract_metadata_short: "length args < 2 \<Longrightarrow> extract_metadata args = Inl IndexError"
  by (simp add: extract_metadata_def)

lemma extract_metadata_request:
  "2 \<le> length args \<Longrightarrow> extract_metadata args = Inr ((args ! 1) |` identifying_attributes)"
  by (auto simp: extract_metadata_def copy_attr_def restrict_map_def identifying_attributes_def
      fun_eq_iff Let_def split: option.splits)

lemma extract_metadata_Inr:
  "extract_metadata args = Inr md \<Longrightarrow> 2 \<le> length args \<and> md = (args ! 1) |` identifying_attributes"
  using extract_metadata_request [of args] extract_metadata_short [of args]
  by (cases "length args < 2") auto

lemma dict_get_restrict:
  "k \<in> identifying_attributes \<Longrightarrow> dict_get (request |` identifying_attributes) k = dict_get request k"
  by (simp add: dict_get_def)

lemma result_addition_wf: "wf_result results \<Longrightarrow> result_addition results = Inr (result_metadata_of results)"
  by (auto simp: wf_result_def result_addition_def result_metadata_of_def dict_get_default_def
      split: pyval.splits option.splits)

lemma result_addition_Inr: "result_addition results = Inr a \<Longrightarrow> a = result_metadata_of results"
  by (auto simp: result_addition_def result_metadata_of_def dict_get_default_def
      split: pyval.splits option.splits if_splits)

lemma pipes_wf:
  "wf_service_metadata kwargs \<Longrightarrow>
   \<exists>p. py_get (kwargs_service_metadata kwargs) ''pipes_metadata'' = Inr p
      \<and> unpack_mapping p = Inr (pipes_metadata_of kwargs)
      \<and> py_get (kwargs_service_metadata kwargs) ''service_version'' = Inr (release_of kwargs)"
  by (auto simp: wf_service_metadata_def kwargs_service_metadata_def pipes_metadata_of_def
      release_of_def dict_get_default_def dict_get_def split: pyval.splits option.splits)

lemma pipes_Inr:
  "py_get (kwargs_service_metadata kwargs) ''pipes_metadata'' = Inr p \<Longrightarrow>
   unpack_mapping p = Inr pm \<Longrightarrow>
   pm = pipes_metadata_of kwargs
   \<and> py_get (kwargs_service_metadata kwargs) ''service_version'' = Inr (release_of kwargs)"
  by (auto simp: kwargs_service_metadata_def pipes_metadata_of_def
      release_of_def dict_get_default_def dict_get_def split: pyval.splits option.splits)

lemma ids_mem: "''mdl_hash'' \<in> identifying_attributes" "''project_id'' \<in> identifying_attributes"
  "''user_id'' \<in> identifying_attributes" "''thread_id'' \<in> identifying_attributes"
  by (simp_all add: identifying_attributes_def)

lemma trace_metadata_success:
  assumes run: "andthen (call func args kwargs) await w = (Inr results, w1)"
    and len: "2 \<le> length args"
    and sm: "wf_service_metadata kwargs"
    and res: "wf_result results"
  shows "trace_metadata func args kwargs w
     = (Inr results, w1\<lparr>trace_updates := trace_updates w1 @ [pushed (args ! 1) kwargs results]\<rparr>)"
proof -
  from pipes_wf [OF sm] obtain p where
    p: "py_get (kwargs_service_metadata kwargs) ''pipes_metadata'' = Inr p"
      "unpack_mapping p = Inr (pipes_metadata_of kwargs)"
      "py_get (kwargs_service_metadata kwargs) ''service_version'' = Inr (release_of kwargs)"
    by blast
  have m: "(a ++ b)(''mdl_hash'' \<mapsto> x, ''project_id'' \<mapsto> y)
      = a ++ b ++ [''mdl_hash'' \<mapsto> x, ''project_id'' \<mapsto> y]" for a b :: pydict and x y
    by simp
  show ?thesis
    unfolding trace_metadata_def
    by (simp add: andthen_def [of "andthen (call func args kwargs) await"] run
        andthen_def [of "lift _"] lift_def result_addition_wf [OF res]
        extract_metadata_request [OF len] p Let_def dict_get_restrict ids_mem
        andthen_def [of "update_current_trace _"] update_current_trace_def returns_def
        pushed_def m del: map_add_upd fun_upd_apply)
qed

lemma trace_metadata_returns:
  assumes "trace_metadata func args kwargs w = (Inr ret, w')"
  shows "\<exists>w1. andthen (call func args kwargs) await w = (Inr ret, w1)
           \<and> 2 \<le> length args
           \<and> w' = w1\<lparr>trace_updates := trace_updates w1 @ [pushed (args ! 1) kwargs ret]\<rparr>"
proof -
  obtain r w1 where run: "andthen (call func args kwargs) await w = (r, w1)"
    by (cases "andthen (call func args kwargs) await w") auto
  from assms run obtain results where r: "r = Inr results"
    unfolding trace_metadata_def
    by (cases r) (auto simp: andthen_def [of "andthen (call func args kwargs) await"])
  note unf = andthen_def [of "andthen (call func args kwargs) await"] run r
  from assms obtain a where a: "result_addition results = Inr a"
    unfolding trace_metadata_def
    by (cases "result_addition results") (auto simp: unf andthen_def [of "lift _"] lift_def)
  from assms obtain md where md: "extract_metadata args = Inr md"
    unfolding trace_metadata_def
    by (cases "extract_metadata args") (auto simp: unf a andthen_def [of "lift _"] lift_def)
  from assms obtain p where p: "py_get (kwargs_service_metadata kwargs) ''pipes_metadata'' = Inr p"
    unfolding trace_metadata_def
    by (cases "py_get (kwargs_service_metadata kwargs) ''pipes_metadata''")
      (auto simp: unf a md andthen_def [of "lift _"] lift_def)
  from assms obtain pm where pm: "unpack_mapping p = Inr pm"
    unfolding trace_metadata_def
    by (cases "unpack_mapping p")
      (auto simp: unf a md p andthen_def [of "lift _"] lift_def)
  from extract_metadata_Inr [OF md] have len: "2 \<le> length args"
    and md': "md = (args ! 1) |` identifying_attributes" by simp_all
  from result_addition_Inr [OF a] have a': "a = result_metadata_of results" .
  from pipes_Inr [OF p pm] have pm': "pm = pipes_metadata_of kwargs"
    and rel: "py_get (kwargs_service_metadata kwargs) ''service_version'' = Inr (release_of kwargs)"
    by simp_all
  have m: "(x ++ y)(''mdl_hash'' \<mapsto> u, ''project_id'' \<mapsto> v)
      = x ++ y ++ [''mdl_hash'' \<mapsto> u, ''project_id'' \<mapsto> v]" for x y :: pydict and u v
    by simp
  have "trace_metadata func args kwargs w
     = (Inr results, w1\<lparr>trace_updates := trace_updates w1 @ [pushed (args ! 1) kwargs results]\<rparr>)"
    unfolding trace_metadata_def
    by (simp add: unf a md p pm rel andthen_def [of "lift _"] lift_def Let_def
        andthen_def [of "update_current_trace _"] update_current_trace_def returns_def
        pushed_def m md' a' pm' dict_get_restrict ids_mem del: map_add_upd fun_upd_apply)
  with assms run r len show ?thesis by auto
qed

lemma sample_run:
  "andthen (call sample_ask args kwargs) await w = (Inr sample_result, w)"
  by (simp add: sample_ask_def andthen_def returns_def)

lemma sample_wf: "wf_service_metadata sample_kwargs" "wf_result sample_result"
  "wf_service_metadata Map.empty"
  by (simp_all add: wf_service_metadata_def wf_result_def sample_kwargs_def sample_result_def)

lemma sample_values:
  "pipes_metadata_of sample_kwargs
     = [''k'' \<mapsto> PStr ''pipe'', ''p'' \<mapsto> PStr ''q'', ''mdl_hash'' \<mapsto> PStr ''h0'']"
  "result_metadata_of sample_result = [''k'' \<mapsto> PStr ''v'', ''mdl_hash'' \<mapsto> PStr ''h1'']"
  "release_of sample_kwargs = PStr ''0.1''"
  "pipes_metadata_of Map.empty = Map.empty"
  by (simp_all add: pipes_metadata_of_def result_metadata_of_def release_of_def sample_kwargs_def
      sample_result_def dict_get_def)

text \<open>
  The request is not the first positional argument. With two positional arguments of
  which only the first exposes \<^verbatim>\<open>project_id\<close>, nothing is extracted and the project
  identifier pushed is \<^verbatim>\<open>None\<close>; with a single positional argument the extraction raises
  \<^verbatim>\<open>IndexError\<close>.
\<close>

theorem extract_metadata_first_argument_counterexample:
  "extract_metadata [[''project_id'' \<mapsto> PStr ''p0''], Map.empty] = Inr Map.empty
   \<and> ([''project_id'' \<mapsto> PStr ''p0''] |` identifying_attributes) ''project_id'' = Some (PStr ''p0'')
   \<and> extract_metadata [[''project_id'' \<mapsto> PStr ''p0'']] = Inl IndexError
   \<and> map (\<lambda>u. tu_metadata u ''project_id'')
        (trace_updates (snd (trace_metadata sample_ask [[''project_id'' \<mapsto> PStr ''p0''], Map.empty]
           Map.empty initial_world)))
       = [Some PNone]"
proof -
  have a: "extract_metadata [[''project_id'' \<mapsto> PStr ''p0''], Map.empty] = Inr Map.empty"
    by (simp add: extract_metadata_def copy_attr_def)
  have b: "([''project_id'' \<mapsto> PStr ''p0''] |` identifying_attributes) ''project_id'' = Some (PStr ''p0'')"
    by (simp add: identifying_attributes_def)
  have c: "extract_metadata [[''project_id'' \<mapsto> PStr ''p0'']] = Inl IndexError"
    by (simp add: extract_metadata_def)
  have d: "trace_metadata sample_ask [[''project_id'' \<mapsto> PStr ''p0''], Map.empty] Map.empty initial_world
      = (Inr sample_result, initial_world\<lparr>trace_updates := trace_updates initial_world
           @ [pushed ([[''project_id'' \<mapsto> PStr ''p0''], Map.empty] ! 1) Map.empty sample_result]\<rparr>)"
    by (rule trace_metadata_success [OF sample_run]) (simp_all add: sample_wf)
  have e: "trace_updates initial_world = []" by (simp add: initial_world_def)
  from a b c show ?thesis
    unfolding d by (simp add: e pushed_def dict_get_def)
qed

text \<open>
  C1 (amended). For every invocation of the wrapper with at least two positional
  arguments, the four optional identifying attributes (project, thread, model-hash and
  user identifier) are extracted from the positional argument at index 1, the second
  one; every invocation that returns had at least two positional arguments and has
  pushed the four values read from that argument (\<^verbatim>\<open>None\<close> for an attribute it lacks).
\<close>

theorem extract_metadata_second_argument:
  "(2 \<le> length args \<longrightarrow>
      extract_metadata args = Inr ((args ! 1) |` identifying_attributes))
   \<and> (trace_metadata func args kwargs w = (Inr ret, w') \<longrightarrow>
        2 \<le> length args
        \<and> (\<exists>before u. trace_updates w' = before @ [u]
              \<and> tu_user_id u = dict_get (args ! 1) ''user_id''
              \<and> tu_session_id u = dict_get (args ! 1) ''thread_id''
              \<and> tu_metadata u ''mdl_hash'' = Some (dict_get (args ! 1) ''mdl_hash'')
              \<and> tu_metadata u ''project_id'' = Some (dict_get (args ! 1) ''project_id'')))"
proof (intro conjI impI)
  assume "2 \<le> length args"
  then show "extract_metadata args = Inr ((args ! 1) |` identifying_attributes)"
    by (rule extract_metadata_request)
next
  assume r: "trace_metadata func args kwargs w = (Inr ret, w')"
  from trace_metadata_returns [OF r] show "2 \<le> length args" by blast
next
  assume r: "trace_metadata func args kwargs w = (Inr ret, w')"
  from trace_metadata_returns [OF r] obtain w1 where
    w': "w' = w1\<lparr>trace_updates := trace_updates w1 @ [pushed (args ! 1) kwargs ret]\<rparr>"
    by blast
  let ?u = "pushed (args ! 1) kwargs ret"
  have "trace_updates w' = trace_updates w1 @ [?u]" by (simp add: w')
  moreover have "tu_user_id ?u = dict_get (args ! 1) ''user_id''"
    "tu_session_id ?u = dict_get (args ! 1) ''thread_id''"
    "tu_metadata ?u ''mdl_hash'' = Some (dict_get (args ! 1) ''mdl_hash'')"
    "tu_metadata ?u ''project_id'' = Some (dict_get (args ! 1) ''project_id'')"
    by (simp_all add: pushed_def)
  ultimately show "\<exists>before u. trace_updates w' = before @ [u]
              \<and> tu_user_id u = dict_get (args ! 1) ''user_id''
              \<and> tu_session_id u = dict_get (args ! 1) ''thread_id''
              \<and> tu_metadata u ''mdl_hash'' = Some (dict_get (args ! 1) ''mdl_hash'')
              \<and> tu_metadata u ''project_id'' = Some (dict_get (args ! 1) ''project_id'')"
    by blast
qed

lemma sample_trace:
  "trace_metadata sample_ask [Map.empty, sample_request] sample_kwargs initial_world
     = (Inr sample_result,
        initial_world\<lparr>trace_updates := [pushed sample_request sample_kwargs sample_result]\<rparr>)"
proof -
  have "trace_metadata sample_ask [Map.empty, sample_request] sample_kwargs initial_world
      = (Inr sample_result, initial_world\<lparr>trace_updates := trace_updates initial_world
           @ [pushed ([Map.empty, sample_request] ! 1) sample_kwargs sample_result]\<rparr>)"
    by (rule trace_metadata_success [OF sample_run]) (simp_all add: sample_wf)
  then show ?thesis by (simp add: initial_world_def)
qed

theorem extract_metadata_second_argument_witness:
  "2 \<le> length [Map.empty, sample_request]
   \<and> extract_metadata [Map.empty, sample_request]
       = Inr [''project_id'' \<mapsto> PStr ''p1'', ''user_id'' \<mapsto> PStr ''u1'']
   \<and> fst (trace_metadata sample_ask [Map.empty, sample_request] sample_kwargs initial_world)
       = Inr sample_result
   \<and> (\<exists>before u.
         trace_updates (snd (trace_metadata sample_ask [Map.empty, sample_request] sample_kwargs
            initial_world)) = before @ [u]
         \<and> tu_user_id u = PStr ''u1'' \<and> tu_session_id u = PNone
         \<and> tu_metadata u ''mdl_hash'' = Some PNone
         \<and> tu_metadata u ''project_id'' = Some (PStr ''p1''))"
proof -
  have r: "sample_request |` identifying_attributes
      = [''project_id'' \<mapsto> PStr ''p1'', ''user_id'' \<mapsto> PStr ''u1'']"
    by (auto simp: sample_request_def identifying_attributes_def restrict_map_def fun_eq_iff)
  have g: "dict_get sample_request ''user_id'' = PStr ''u1''"
    "dict_get sample_request ''thread_id'' = PNone"
    "dict_get sample_request ''mdl_hash'' = PNone"
    "dict_get sample_request ''project_id'' = PStr ''p1''"
    by (simp_all add: dict_get_def sample_request_def)
  show ?thesis
    using extract_metadata_second_argument
      [where args = "[Map.empty, sample_request]" and func = sample_ask
         and kwargs = sample_kwargs and w = initial_world and ret = sample_result
         and w' = "initial_world\<lparr>trace_updates := [pushed sample_request sample_kwargs sample_result]\<rparr>"]
    by (simp add: sample_trace r g)
qed



text \<open>
  C9. The pushed metadata always has the keys \<^verbatim>\<open>mdl_hash\<close> and \<^verbatim>\<open>project_id\<close>: each is
  the attribute of the request, or \<^verbatim>\<open>None\<close> when the request lacks the attribute,
  whatever \<^verbatim>\<open>pipes_metadata\<close> and the result's \<^verbatim>\<open>metadata\<close> hold for the same key.
\<close>

theorem trace_metadata_always_sets_mdl_hash_and_project_id:
  "(andthen (call func args kwargs) await w = (Inr results, w1) \<and> 2 \<le> length args
      \<and> wf_service_metadata kwargs \<and> wf_result results \<longrightarrow>
      (\<exists>u. trace_metadata func args kwargs w
              = (Inr results, w1\<lparr>trace_updates := trace_updates w1 @ [u]\<rparr>)
          \<and> tu_metadata u ''mdl_hash''
              = Some (case (args ! 1) ''mdl_hash'' of None \<Rightarrow> PNone | Some v \<Rightarrow> v)
          \<and> tu_metadata u ''project_id''
              = Some (case (args ! 1) ''project_id'' of None \<Rightarrow> PNone | Some v \<Rightarrow> v)))
   \<and> (trace_metadata func args kwargs w = (Inr ret, w') \<longrightarrow>
        (\<exists>before u. trace_updates w' = before @ [u]
          \<and> tu_metadata u ''mdl_hash''
              = Some (case (args ! 1) ''mdl_hash'' of None \<Rightarrow> PNone | Some v \<Rightarrow> v)
          \<and> tu_metadata u ''project_id''
              = Some (case (args ! 1) ''project_id'' of None \<Rightarrow> PNone | Some v \<Rightarrow> v)))"
proof -
  have m: "tu_metadata (pushed request kw res) ''mdl_hash''
        = Some (case request ''mdl_hash'' of None \<Rightarrow> PNone | Some v \<Rightarrow> v)"
      "tu_metadata (pushed request kw res) ''project_id''
        = Some (case request ''project_id'' of None \<Rightarrow> PNone | Some v \<Rightarrow> v)"
    for request kw res
    by (simp_all add: pushed_def dict_get_def)
  show ?thesis
  proof (intro conjI impI)
    assume h: "andthen (call func args kwargs) await w = (Inr results, w1) \<and> 2 \<le> length args
      \<and> wf_service_metadata kwargs \<and> wf_result results"
    then have "trace_metadata func args kwargs w
       = (Inr results, w1\<lparr>trace_updates := trace_updates w1 @ [pushed (args ! 1) kwargs results]\<rparr>)"
      by (intro trace_metadata_success) simp_all
    with m [of "args ! 1" kwargs results]
    show "\<exists>u. trace_metadata func args kwargs w
              = (Inr results, w1\<lparr>trace_updates := trace_updates w1 @ [u]\<rparr>)
          \<and> tu_metadata u ''mdl_hash''
              = Some (case (args ! 1) ''mdl_hash'' of None \<Rightarrow> PNone | Some v \<Rightarrow> v)
          \<and> tu_metadata u ''project_id''
              = Some (case (args ! 1) ''project_id'' of None \<Rightarrow> PNone | Some v \<Rightarrow> v)"
      by blast
  next
    assume r: "trace_metadata func args kwargs w = (Inr ret, w')"
    from trace_metadata_returns [OF r] obtain w1 where
      "w' = w1\<lparr>trace_updates := trace_updates w1 @ [pushed (args ! 1) kwargs ret]\<rparr>"
      by blast
    then have "trace_updates w' = trace_updates w1 @ [pushed (args ! 1) kwargs ret]" by simp
    with m [of "args ! 1" kwargs ret]
    show "\<exists>before u. trace_updates w' = before @ [u]
          \<and> tu_metadata u ''mdl_hash''
              = Some (case (args ! 1) ''mdl_hash'' of None \<Rightarrow> PNone | Some v \<Rightarrow> v)
          \<and> tu_metadata u ''project_id''
              = Some (case (args ! 1) ''project_id'' of None \<Rightarrow> PNone | Some v \<Rightarrow> v)"
      by blast
  qed
qed

theorem trace_metadata_always_sets_mdl_hash_and_project_id_witness:
  "andthen (call sample_ask [Map.empty, sample_request] sample_kwargs) await initial_world
     = (Inr sample_result, initial_world)
   \<and> 2 \<le> length [Map.empty, sample_request]
   \<and> wf_service_metadata sample_kwargs \<and> wf_result sample_result
   \<and> sample_request ''mdl_hash'' = None
   \<and> pipes_metadata_of sample_kwargs ''mdl_hash'' = Some (PStr ''h0'')
   \<and> result_metadata_of sample_result ''mdl_hash'' = Some (PStr ''h1'')
   \<and> (\<exists>u. trace_metadata sample_ask [Map.empty, sample_request] sample_kwargs initial_world
           = (Inr sample_result, initial_world\<lparr>trace_updates := [u]\<rparr>)
       \<and> tu_metadata u ''mdl_hash'' = Some PNone
       \<and> tu_metadata u ''project_id'' = Some (PStr ''p1''))"
proof -
  have g: "sample_request ''mdl_hash'' = None" "sample_request ''project_id'' = Some (PStr ''p1'')"
    by (simp_all add: sample_request_def)
  have e: "trace_updates initial_world = []" by (simp add: initial_world_def)
  from trace_metadata_always_sets_mdl_hash_and_project_id
      [where func = sample_ask and args = "[Map.empty, sample_request]"
         and kwargs = sample_kwargs and w = initial_world and results = sample_result
         and ?w1.0 = initial_world and ret = sample_result
         and w' = "initial_world\<lparr>trace_updates := [pushed sample_request sample_kwargs sample_result]\<rparr>"]
  have "\<exists>u. trace_metadata sample_ask [Map.empty, sample_request] sample_kwargs initial_world
           = (Inr sample_result, initial_world\<lparr>trace_updates := [u]\<rparr>)
       \<and> tu_metadata u ''mdl_hash'' = Some PNone
       \<and> tu_metadata u ''project_id'' = Some (PStr ''p1'')"
    by (simp add: sample_run sample_wf g e)
  then show ?thesis by (simp add: sample_run sample_wf g sample_values)
qed

end
